theory Spec2Isabelle
  imports Complex_Main
begin

section \<open>Transmission-line analytics: propagation, ABCD algebra, metrics, matching\<close>

text \<open>
  The Python sources compute with IEEE double precision numbers (\<^verbatim>\<open>float\<close>,
  \<^verbatim>\<open>complex\<close>, \<^verbatim>\<open>np.float64\<close>, \<^verbatim>\<open>np.complex128\<close>). The embedding
  computes with the exact reals and complex numbers instead: every floating-point
  operation is read as the exact operation it rounds, and the numeric thresholds of the
  source (\<^verbatim>\<open>1e-12\<close>, \<^verbatim>\<open>1e9\<close>, the tolerances of \<^verbatim>\<open>np.isclose\<close>) are kept as
  written. What the sources do at a zero divisor is written out, because HOL's own
  division returns \<open>0\<close> there:
  \<^item> division of Python numbers raises \<^verbatim>\<open>ZeroDivisionError\<close> (\<open>py_div\<close>);
  \<^item> division of NumPy scalars warns and continues with \<^verbatim>\<open>inf\<close> or \<^verbatim>\<open>nan\<close>
    (\<open>np_div\<close>, whose \<open>None\<close> stands for such a non-finite value).

  Rounding, overflow and underflow are outside the embedding: where a floating-point
  result is rounded, or flushed to zero or to infinity, the sources depart from the exact
  value computed here. The sign of a floating-point zero is inside it where the sources
  branch on it: \<^verbatim>\<open>np.sqrt\<close> of a number on the real axis returns the principal root
  when the imaginary part is \<^verbatim>\<open>+0.0\<close> and its conjugate when it is \<^verbatim>\<open>-0.0\<close>
  (\<open>np_sqrt\<close>). A zero passed as an argument is \<^verbatim>\<open>+0.0\<close> (or the integer \<^verbatim>\<open>0\<close>).
\<close>

subsection \<open>Errors and non-finite values\<close>

datatype error = ZeroDivisionError | ValueError | TypeError | NotModelled

text \<open>
  A value a function can receive or return where the sources let \<^verbatim>\<open>inf\<close> and \<^verbatim>\<open>nan\<close>
  through: a finite one, one of infinite magnitude (\<^verbatim>\<open>np.abs\<close> is \<^verbatim>\<open>inf\<close>), a \<^verbatim>\<open>nan\<close>.
\<close>

datatype 'a ext = Fin 'a | PosInf | NaN

definition py_div :: "'a::field \<Rightarrow> 'a \<Rightarrow> error + 'a" where
  "py_div a b = (if b = 0 then Inl ZeroDivisionError else Inr (a / b))"

definition np_div :: "'a::field \<Rightarrow> 'a \<Rightarrow> 'a option" where
  "np_div a b = (if b = 0 then None else Some (a / b))"

subsection \<open>Signed zeros and the branch of \<^verbatim>\<open>np.sqrt\<close>\<close>

text \<open>
  The floating-point product \<^verbatim>\<open>x * y\<close> is \<^verbatim>\<open>-0.0\<close> when one factor is \<^verbatim>\<open>+0.0\<close> and the
  other is negative. A sum or difference of two nonzero terms that cancel exactly is
  \<^verbatim>\<open>+0.0\<close>; where rounding leaves a residue instead, the sources depart from the
  embedding as for any other rounded value.
\<close>

definition neg_zero :: "real \<Rightarrow> real \<Rightarrow> bool" where
  "neg_zero x y = ((x = 0 \<and> y < 0) \<or> (y = 0 \<and> x < 0))"

text \<open>
  The imaginary part of a complex product \<^verbatim>\<open>z * w\<close> is computed as
  \<^verbatim>\<open>z.real * w.imag + z.imag * w.real\<close>; a sum is \<^verbatim>\<open>-0.0\<close> only when both terms are.
\<close>

definition cprod_neg_zero :: "complex \<Rightarrow> complex \<Rightarrow> bool" where
  "cprod_neg_zero z w = (neg_zero (Re z) (Im w) \<and> neg_zero (Im z) (Re w))"

text \<open>
  The imaginary part of a quotient \<^verbatim>\<open>z / w\<close> of Python complex numbers, when it is a
  zero. CPython divides by the larger component of \<^verbatim>\<open>w\<close>: with
  \<^verbatim>\<open>abs(w.real) >= abs(w.imag)\<close> it computes \<^verbatim>\<open>ratio = w.imag / w.real\<close>,
  \<^verbatim>\<open>denom = w.real + w.imag * ratio\<close> and
  \<^verbatim>\<open>(z.imag - z.real * ratio) / denom\<close>, whose numerator is \<^verbatim>\<open>+0.0\<close> when it is zero, so
  the sign is that of \<^verbatim>\<open>w.real\<close>; otherwise \<^verbatim>\<open>ratio = w.real / w.imag\<close>,
  \<^verbatim>\<open>denom = w.real * ratio + w.imag\<close> and \<^verbatim>\<open>(z.imag * ratio - z.real) / denom\<close>, whose
  numerator is \<^verbatim>\<open>-0.0\<close> when \<^verbatim>\<open>z.real\<close> is zero and \<^verbatim>\<open>z.imag * ratio\<close> is \<^verbatim>\<open>-0.0\<close>.
\<close>

definition cquot_neg_zero :: "complex \<Rightarrow> complex \<Rightarrow> bool" where
  "cquot_neg_zero z w =
     (if \<bar>Re w\<bar> \<ge> \<bar>Im w\<bar> then Re w < 0
      else
        ((Re z = 0 \<and> (Im z = 0 \<or> Re w = 0) \<and> ((Im z < 0) \<noteq> ((Re w < 0) \<noteq> (Im w < 0))))
           \<noteq> (Im w < 0)))"

text \<open>
  \<^verbatim>\<open>np.sqrt\<close> of a complex number; \<open>neg_zero_imag\<close> says that the imaginary part of the
  argument, when it is zero, is \<^verbatim>\<open>-0.0\<close>.
\<close>

definition np_sqrt :: "complex \<Rightarrow> bool \<Rightarrow> complex" where
  "np_sqrt z neg_zero_imag = (if Im z = 0 \<and> neg_zero_imag then cnj (csqrt z) else csqrt z)"

subsection \<open>tl_abcd.py\<close>

text \<open>A 2x2 complex array \<^verbatim>\<open>[[A, B], [C, D]]\<close> is the tuple \<open>(A, B, C, D)\<close>.\<close>

type_synonym abcd = "complex \<times> complex \<times> complex \<times> complex"

definition eye2 :: abcd where
  "eye2 = (1, 0, 0, 1)"

fun matmul :: "abcd \<Rightarrow> abcd \<Rightarrow> abcd" where
  "matmul (a1, b1, c1, d1) (a2, b2, c2, d2) =
     (a1 * a2 + b1 * c2, a1 * b2 + b1 * d2, c1 * a2 + d1 * c2, c1 * b2 + d1 * d2)"

text \<open>
  \<^verbatim>\<open>abcd_of_tline(gamma, Z0, length)\<close>. The entry \<^verbatim>\<open>C = (1 / Z0) * sinh(gamma * length)\<close>
  divides by \<^verbatim>\<open>Z0\<close>; for the Python numbers of the signature this raises at \<^verbatim>\<open>Z0 == 0\<close>.
\<close>

definition abcd_of_tline :: "complex \<Rightarrow> complex \<Rightarrow> real \<Rightarrow> error + abcd" where
  "abcd_of_tline gamma Z0 length' =
     (case py_div 1 Z0 of
        Inl e \<Rightarrow> Inl e
      | Inr y \<Rightarrow>
          Inr (cosh (gamma * of_real length'),
               Z0 * sinh (gamma * of_real length'),
               y * sinh (gamma * of_real length'),
               cosh (gamma * of_real length')))"

definition abcd_of_shunt_admittance :: "complex \<Rightarrow> abcd" where
  "abcd_of_shunt_admittance Y = (1, 0, Y, 1)"

text \<open>The loop \<^verbatim>\<open>for abcd in abcd_list: result = result @ abcd\<close>.\<close>

fun cascade_loop :: "abcd \<Rightarrow> abcd list \<Rightarrow> abcd" where
  "cascade_loop result [] = result"
| "cascade_loop result (m # rest) = cascade_loop (matmul result m) rest"

definition cascade_abcd :: "abcd list \<Rightarrow> abcd" where
  "cascade_abcd abcd_list = cascade_loop eye2 abcd_list"

text \<open>\<^verbatim>\<open>z_in_from_abcd\<close> returns \<^verbatim>\<open>np.inf\<close> (\<open>PosInf\<close>) or a complex quotient.\<close>

fun z_in_from_abcd :: "abcd \<Rightarrow> complex \<Rightarrow> error + complex ext" where
  "z_in_from_abcd (A, B, C, D) ZL =
     (let denom = C * ZL + D in
      if cmod denom < 1 / 10 ^ 12 then Inr PosInf
      else (case py_div (A * ZL + B) denom of Inl e \<Rightarrow> Inl e | Inr z \<Rightarrow> Inr (Fin z)))"

subsection \<open>tl_metrics.py\<close>

definition gamma_of_impedance :: "complex \<Rightarrow> complex \<Rightarrow> error + complex" where
  "gamma_of_impedance ZL Z0 =
     (let denom = ZL + Z0 in
      if cmod denom < 1 / 10 ^ 12 then Inr 1
      else py_div (ZL - Z0) denom)"

text \<open>
  \<^verbatim>\<open>vswr_from_gamma(gamma)\<close>. Both solvers can pass a \<^verbatim>\<open>nan\<close>: then \<^verbatim>\<open>mag\<close> is \<^verbatim>\<open>nan\<close>,
  the test \<^verbatim>\<open>mag >= 1.0\<close> is false and the quotient \<^verbatim>\<open>(1 + mag) / (1 - mag)\<close> is
  \<^verbatim>\<open>nan\<close>. For an argument of infinite magnitude \<^verbatim>\<open>mag >= 1.0\<close> holds.
\<close>

fun vswr_from_gamma :: "complex ext \<Rightarrow> error + real ext" where
  "vswr_from_gamma (Fin gamma) =
     (let mag = cmod gamma in
      if mag \<ge> 1 then Inr PosInf
      else (case py_div (1 + mag) (1 - mag) of Inl e \<Rightarrow> Inl e | Inr v \<Rightarrow> Inr (Fin v)))"
| "vswr_from_gamma PosInf = Inr PosInf"
| "vswr_from_gamma NaN = Inr NaN"

text \<open>Comparison of a returned VSWR with \<open>1\<close>: \<^verbatim>\<open>inf >= 1\<close> holds, \<^verbatim>\<open>nan >= 1\<close> does not.\<close>

fun ext_ge :: "real ext \<Rightarrow> real \<Rightarrow> bool" where
  "ext_ge (Fin v) c = (c \<le> v)"
| "ext_ge PosInf c = True"
| "ext_ge NaN c = False"

subsection \<open>tl_basics.py\<close>

text \<open>
  \<^verbatim>\<open>gamma_Z0(R, L, G, C, freq)\<close>. \<^verbatim>\<open>Z\<close> and \<^verbatim>\<open>Y\<close> are Python complex numbers, so
  \<^verbatim>\<open>Z / Y\<close> raises \<^verbatim>\<open>ZeroDivisionError\<close> at \<^verbatim>\<open>Y == 0\<close>. The zero components of \<^verbatim>\<open>Z\<close>
  and \<^verbatim>\<open>Y\<close> are \<^verbatim>\<open>+0.0\<close>; the product \<^verbatim>\<open>Z * Y\<close> and the quotient \<^verbatim>\<open>Z / Y\<close> can have
  an imaginary part \<^verbatim>\<open>-0.0\<close>, which decides the branch of \<^verbatim>\<open>np.sqrt\<close> on the negative
  real axis (a lossless line with \<^verbatim>\<open>L, C < 0\<close> or \<^verbatim>\<open>freq < 0\<close> gets
  \<^verbatim>\<open>Im(gamma) < 0\<close>).
\<close>

definition gamma_Z0 :: "real \<Rightarrow> real \<Rightarrow> real \<Rightarrow> real \<Rightarrow> real \<Rightarrow> error + (complex \<times> complex)" where
  "gamma_Z0 R L G C freq =
     (let omega = 2 * pi * freq;
          Z = of_real R + \<i> * of_real omega * of_real L;
          Y = of_real G + \<i> * of_real omega * of_real C
      in case py_div Z Y of
           Inl e \<Rightarrow> Inl e
         | Inr q \<Rightarrow> Inr (np_sqrt (Z * Y) (cprod_neg_zero Z Y), np_sqrt q (cquot_neg_zero Z Y)))"

subsection \<open>tl_matching.py: quarter-wave transformer\<close>

text \<open>\<^verbatim>\<open>np.isclose(a, b)\<close> with its default tolerances \<^verbatim>\<open>rtol=1e-05\<close>, \<^verbatim>\<open>atol=1e-08\<close>.\<close>

definition isclose :: "real \<Rightarrow> real \<Rightarrow> bool" where
  "isclose a b = (\<bar>a - b\<bar> \<le> 1 / 10 ^ 8 + 1 / 10 ^ 5 * \<bar>b\<bar>)"

text \<open>
  The two lines \<^verbatim>\<open>Gamma_in = gamma_of_impedance(Zin, Z0)\<close>,
  \<^verbatim>\<open>VSWR_src = vswr_from_gamma(Gamma_in)\<close> that end both solvers. When \<^verbatim>\<open>Zin\<close> is
  \<^verbatim>\<open>inf\<close> or \<^verbatim>\<open>nan\<close>, the guard of \<^verbatim>\<open>gamma_of_impedance\<close> is false and its quotient
  (\<^verbatim>\<open>inf/inf\<close>, \<^verbatim>\<open>nan/nan\<close>) is \<^verbatim>\<open>nan\<close>, which is passed on to \<^verbatim>\<open>vswr_from_gamma\<close>.
\<close>

definition source_vswr :: "complex ext \<Rightarrow> complex \<Rightarrow> error + real ext" where
  "source_vswr Zin Z0 =
     (case Zin of
        Fin z \<Rightarrow>
          (case gamma_of_impedance z Z0 of
             Inl e \<Rightarrow> Inl e
           | Inr Gamma_in \<Rightarrow> vswr_from_gamma (Fin Gamma_in))
      | PosInf \<Rightarrow> vswr_from_gamma NaN
      | NaN \<Rightarrow> vswr_from_gamma NaN)"

record QWTMatchResult =
  qw_VSWR_src :: "real ext"
  l_qw :: real
  Zt :: complex
  j_index :: int

text \<open>
  \<^verbatim>\<open>quarter_wave_transform(R, L, G, C, f0, ZL)\<close>. \<^verbatim>\<open>Zt\<close> is a NumPy scalar, so
  \<^verbatim>\<open>(Zt**2) / ZL\<close> does not raise at \<^verbatim>\<open>ZL == 0\<close>: it is \<^verbatim>\<open>0/0 = nan\<close>. The divisor
  \<^verbatim>\<open>2.0 * beta\<close> is not zero once the \<^verbatim>\<open>isclose\<close> guard has been passed. The
  imaginary part of \<^verbatim>\<open>Z0 * ZL\<close> is \<^verbatim>\<open>Z0.real * ZL.imag + Z0.imag * ZL.real\<close>. A zero
  imaginary part of \<^verbatim>\<open>Z0\<close> can be \<^verbatim>\<open>-0.0\<close>, which does not change \<^verbatim>\<open>Zt\<close>: then
  \<^verbatim>\<open>Z0.real\<close> is positive and the first term is not \<^verbatim>\<open>-0.0\<close>, or \<^verbatim>\<open>Z0\<close> is zero and so
  is \<^verbatim>\<open>Zt\<close> on either branch.
\<close>

definition quarter_wave_transform ::
  "real \<Rightarrow> real \<Rightarrow> real \<Rightarrow> real \<Rightarrow> real \<Rightarrow> complex \<Rightarrow> error + QWTMatchResult" where
  "quarter_wave_transform R L G C f0 ZL =
     (case gamma_Z0 R L G C f0 of
        Inl e \<Rightarrow> Inl e
      | Inr (gamma, Z0) \<Rightarrow>
          (let beta = Im gamma in
           if isclose beta 0 then Inl ValueError
           else
             (let Zt = np_sqrt (Z0 * ZL) (cprod_neg_zero Z0 ZL);
                  l_qw = pi / (2 * beta);
                  Zin_at_transform_input =
                    (case np_div (Zt ^ 2) ZL of None \<Rightarrow> NaN | Some z \<Rightarrow> Fin z)
              in (case source_vswr Zin_at_transform_input Z0 of
                    Inl e \<Rightarrow> Inl e
                  | Inr VSWR_src \<Rightarrow>
                      Inr \<lparr>qw_VSWR_src = VSWR_src, l_qw = l_qw, Zt = Zt, j_index = 1\<rparr>))))"

subsection \<open>tl_matching.py: single-stub shunt tuner\<close>

text \<open>
  \<^verbatim>\<open>np.tan\<close> of a real angle. At a pole of the tangent the exact value is infinite;
  \<open>None\<close> stands for it.
\<close>

definition np_tan :: "real \<Rightarrow> real option" where
  "np_tan x = (if cos x = 0 then None else Some (tan x))"

text \<open>
  \<^verbatim>\<open>np.linspace(start, stop, num)\<close>: the samples \<^verbatim>\<open>start + i * step\<close> for
  \<^verbatim>\<open>i = 0 .. num - 1\<close> with \<^verbatim>\<open>step = (stop - start) / (num - 1)\<close>. When \<^verbatim>\<open>stop\<close> is
  infinite (\<^verbatim>\<open>lam = 2 * np.pi / beta\<close> at \<^verbatim>\<open>beta == 0\<close>) every sample is \<^verbatim>\<open>nan\<close> or
  \<^verbatim>\<open>inf\<close>.
\<close>

definition linspace :: "real \<Rightarrow> real \<Rightarrow> nat \<Rightarrow> real list" where
  "linspace start stop num =
     map (\<lambda>i. start + real i * ((stop - start) / real (num - 1))) [0..<num]"

definition np_linspace :: "real \<Rightarrow> real option \<Rightarrow> nat \<Rightarrow> real option list" where
  "np_linspace start stop num =
     (case stop of None \<Rightarrow> replicate num None | Some s \<Rightarrow> map Some (linspace start s num))"

text \<open>
  One pass of the loop body up to \<^verbatim>\<open>err\<close>: the input impedance \<^verbatim>\<open>Zin\<close> at distance
  \<^verbatim>\<open>d\<close>, \<^verbatim>\<open>Yin = 1 / Zin\<close> and \<^verbatim>\<open>err = abs(np.real(Yin) - np.real(y0))\<close>. All operands
  are NumPy scalars: a zero divisor gives \<^verbatim>\<open>inf\<close> or \<^verbatim>\<open>nan\<close>, and then \<^verbatim>\<open>err\<close> is
  \<^verbatim>\<open>inf\<close> or \<^verbatim>\<open>nan\<close> too (\<open>None\<close>).
\<close>

definition sample :: "complex \<Rightarrow> real \<Rightarrow> complex \<Rightarrow> complex option \<Rightarrow> real \<Rightarrow> (real \<times> complex) option" where
  "sample Z0 beta ZL y0 d =
     (case np_tan (beta * d) of
        None \<Rightarrow> None
      | Some t \<Rightarrow>
          (case np_div (Z0 * (ZL + \<i> * Z0 * of_real t)) (Z0 + \<i> * ZL * of_real t) of
             None \<Rightarrow> None
           | Some Zin \<Rightarrow>
               (case np_div 1 Zin of
                  None \<Rightarrow> None
                | Some Yin \<Rightarrow>
                    (case y0 of
                       None \<Rightarrow> None
                     | Some y0v \<Rightarrow> Some (\<bar>Re Yin - Re y0v\<bar>, Yin)))))"

text \<open>
  The loop \<^verbatim>\<open>for d in d_sweep\<close> with its state \<^verbatim>\<open>min_err, d_best, Yin_best\<close>;
  \<^verbatim>\<open>d_best\<close> and \<^verbatim>\<open>Yin_best\<close> are \<^verbatim>\<open>None\<close> together. The test \<^verbatim>\<open>err < min_err\<close> is
  false when \<^verbatim>\<open>err\<close> is \<^verbatim>\<open>inf\<close> or \<^verbatim>\<open>nan\<close>.
\<close>

fun sweep ::
  "complex \<Rightarrow> real \<Rightarrow> complex \<Rightarrow> complex option \<Rightarrow> real option list
     \<Rightarrow> real \<times> (real \<times> complex) option \<Rightarrow> real \<times> (real \<times> complex) option" where
  "sweep Z0 beta ZL y0 [] st = st"
| "sweep Z0 beta ZL y0 (None # ds) st = sweep Z0 beta ZL y0 ds st"
| "sweep Z0 beta ZL y0 (Some d # ds) (min_err, best) =
     (case sample Z0 beta ZL y0 d of
        None \<Rightarrow> sweep Z0 beta ZL y0 ds (min_err, best)
      | Some (err, Yin) \<Rightarrow>
          if err < min_err then sweep Z0 beta ZL y0 ds (err, Some (d, Yin))
          else sweep Z0 beta ZL y0 ds (min_err, best))"

text \<open>
  \<^verbatim>\<open>theta = np.arctan(1 / target)\<close> followed by \<^verbatim>\<open>if theta < 0: theta += np.pi\<close>.
  \<^verbatim>\<open>target\<close> is a complex NumPy scalar because \<^verbatim>\<open>Z0\<close> is. The arctangent is modelled on
  the real axis, where it is the real arctangent; off the axis the model stops with
  \<open>NotModelled\<close> (the solver never gets there, see \<open>single_stub_never_unmodelled\<close>). At
  \<^verbatim>\<open>target == 0\<close> the quotient \<^verbatim>\<open>1 / target\<close> is infinite and its arctangent is
  \<^verbatim>\<open>pi/2\<close>. NumPy orders complex numbers lexicographically, so on the real axis
  \<^verbatim>\<open>theta < 0\<close> compares the real parts.
\<close>

definition stub_theta :: "complex \<Rightarrow> error + complex" where
  "stub_theta target =
     (if Im target \<noteq> 0 then Inl NotModelled
      else
        (let theta = (if target = 0 then pi / 2 else arctan (1 / Re target))
         in Inr (of_real (if theta < 0 then theta + pi else theta))))"

text \<open>
  \<^verbatim>\<open>num / np.tan(beta * l_stub)\<close> for the recomputed stub admittance. At a pole of the
  tangent the quotient is \<open>0\<close>; at a zero of the tangent it is not finite (\<open>None\<close>).
\<close>

definition div_by_tan :: "complex \<Rightarrow> complex \<Rightarrow> complex option" where
  "div_by_tan num x = (if cos x = 0 then Some 0 else np_div num (tan x))"

text \<open>
  The branch on \<^verbatim>\<open>prefer\<close> (source lines 167 to 182): the stub length \<^verbatim>\<open>l_stub\<close> and the
  recomputed admittance \<^verbatim>\<open>Y_stub\<close>. \<^verbatim>\<open>y0v\<close> is \<^verbatim>\<open>1 / Z0\<close>; \<^verbatim>\<open>beta\<close> is not zero when
  this point is reached (\<open>single_stub_returns_shape\<close>).
\<close>

definition stub_length ::
  "string \<Rightarrow> real \<Rightarrow> complex \<Rightarrow> complex \<Rightarrow> real \<Rightarrow> error + (complex \<times> complex option)" where
  "stub_length prefer B_needed Z0 y0v beta =
     (if prefer = ''short'' then
        (let target = - of_real B_needed * Z0 in
         case stub_theta target of
           Inl e \<Rightarrow> Inl e
         | Inr theta \<Rightarrow>
             (let l_stub = theta / of_real beta
              in Inr (l_stub, div_by_tan (- \<i> * y0v) (of_real beta * l_stub))))
      else
        (let target = of_real B_needed * Z0 in
         case stub_theta target of
           Inl e \<Rightarrow> Inl e
         | Inr theta \<Rightarrow>
             (let l_stub = theta / of_real beta
              in Inr (l_stub, div_by_tan (\<i> * y0v) (of_real beta * l_stub)))))"

text \<open>
  The ABCD chain and the score (source lines 185 to 192). A \<^verbatim>\<open>nan\<close> stub admittance makes
  the denominator of \<^verbatim>\<open>z_in_from_abcd\<close> \<^verbatim>\<open>nan\<close>, its guard false and the result \<^verbatim>\<open>nan\<close>.
\<close>

definition stub_vswr ::
  "complex \<Rightarrow> complex \<Rightarrow> real \<Rightarrow> complex \<Rightarrow> real \<Rightarrow> complex option \<Rightarrow> error + real ext" where
  "stub_vswr gamma Z0 l ZL d_opt Y_stub =
     (case abcd_of_tline gamma Z0 d_opt of
        Inl e \<Rightarrow> Inl e
      | Inr abcd1 \<Rightarrow>
          (case abcd_of_tline gamma Z0 (l - d_opt) of
             Inl e \<Rightarrow> Inl e
           | Inr abcd2 \<Rightarrow>
               (case Y_stub of
                  None \<Rightarrow> Inr NaN
                | Some Y \<Rightarrow>
                    (let abcd_stub = abcd_of_shunt_admittance Y;
                         ABCD_total = cascade_abcd [abcd1, abcd_stub, abcd2]
                     in case z_in_from_abcd ABCD_total ZL of
                          Inl e \<Rightarrow> Inl e
                        | Inr Zin \<Rightarrow> source_vswr Zin Z0))))"

text \<open>
  The result object (\<open>st_notes\<close> is the field \<^verbatim>\<open>notes\<close>, a reserved word here).
  \<^verbatim>\<open>notes\<close> is an f-string of \<^verbatim>\<open>d_opt\<close>, \<^verbatim>\<open>Yin_best\<close>,
  \<^verbatim>\<open>B_needed\<close> and \<^verbatim>\<open>l_stub\<close>; the model keeps the four formatted values.
\<close>

record StubMatchResult =
  st_VSWR_src :: "real ext"
  d_opt :: real
  l_stub :: complex
  st_notes :: "real \<times> complex \<times> real \<times> complex"

text \<open>
  \<^verbatim>\<open>single_stub_shunt(R, L, G, C, f0, l, ZL, prefer)\<close>. \<^verbatim>\<open>beta\<close> and \<^verbatim>\<open>Z0\<close> are NumPy
  scalars, so \<^verbatim>\<open>2 * np.pi / beta\<close> and \<^verbatim>\<open>1 / Z0\<close> do not raise. When no sample passes
  \<^verbatim>\<open>err < min_err\<close>, \<^verbatim>\<open>Yin_best\<close> is still \<^verbatim>\<open>None\<close> and \<^verbatim>\<open>Yin_best - y0\<close> raises
  \<^verbatim>\<open>TypeError\<close>.
\<close>

definition single_stub_shunt ::
  "real \<Rightarrow> real \<Rightarrow> real \<Rightarrow> real \<Rightarrow> real \<Rightarrow> real \<Rightarrow> complex \<Rightarrow> string \<Rightarrow> error + StubMatchResult" where
  "single_stub_shunt R L G C f0 l ZL prefer =
     (case gamma_Z0 0 L 0 C f0 of
        Inl e \<Rightarrow> Inl e
      | Inr (gamma, Z0) \<Rightarrow>
          (let beta = Im gamma;
               lam = np_div (2 * pi) beta;
               y0 = np_div 1 Z0;
               d_sweep = np_linspace 0 (map_option (\<lambda>lam. lam / 2) lam) 1000
           in (case (snd (sweep Z0 beta ZL y0 d_sweep (10 ^ 9, None)), y0) of
                 (Some (d_best, Yin_best), Some y0v) \<Rightarrow>
                   (let B_needed = - Im (Yin_best - y0v) in
                    case stub_length prefer B_needed Z0 y0v beta of
                      Inl e \<Rightarrow> Inl e
                    | Inr (stub_len, Y_stub) \<Rightarrow>
                        (case stub_vswr gamma Z0 l ZL d_best Y_stub of
                           Inl e \<Rightarrow> Inl e
                         | Inr VSWR_src \<Rightarrow>
                             Inr \<lparr>st_VSWR_src = VSWR_src, d_opt = d_best, l_stub = stub_len,
                                  st_notes = (d_best, Yin_best, B_needed, stub_len)\<rparr>))
               | _ \<Rightarrow> Inl TypeError)))"

section \<open>Verified properties\<close>

subsection \<open>Guarded divisions never raise\<close>

lemma z_in_from_abcd_value:
  "z_in_from_abcd (A, B, C, D) ZL =
     Inr (if cmod (C * ZL + D) < 1 / 10 ^ 12 then PosInf
          else Fin ((A * ZL + B) / (C * ZL + D)))"
proof (cases "cmod (C * ZL + D) < 1 / 10 ^ 12")
  case True
  then show ?thesis by (simp add: Let_def)
next
  case False
  then have "C * ZL + D \<noteq> 0" by auto
  with False show ?thesis by (simp add: Let_def py_div_def)
qed

lemma gamma_of_impedance_value:
  "gamma_of_impedance ZL Z0 =
     Inr (if cmod (ZL + Z0) < 1 / 10 ^ 12 then 1 else (ZL - Z0) / (ZL + Z0))"
proof (cases "cmod (ZL + Z0) < 1 / 10 ^ 12")
  case True
  then show ?thesis by (simp add: gamma_of_impedance_def Let_def)
next
  case False
  then have "ZL + Z0 \<noteq> 0" by auto
  with False show ?thesis by (simp add: gamma_of_impedance_def Let_def py_div_def)
qed

lemma vswr_from_gamma_value:
  "vswr_from_gamma (Fin Gamma) =
     Inr (if cmod Gamma \<ge> 1 then PosInf else Fin ((1 + cmod Gamma) / (1 - cmod Gamma)))"
  by (simp add: Let_def py_div_def)

declare vswr_from_gamma.simps(1) [simp del]

lemma source_vswr_returns: "\<exists>v. source_vswr Zin Z0 = Inr v"
  by (cases Zin) (simp_all add: source_vswr_def gamma_of_impedance_value vswr_from_gamma_value)

text \<open>
  Claim C4. Degenerate denominators are saturated, never raised: \<open>z_in_from_abcd\<close>
  returns positive infinity when \<open>|C*ZL + D| < 1e-12\<close> and the quotient
  \<open>(A*ZL + B)/(C*ZL + D)\<close> otherwise; \<open>gamma_of_impedance\<close> returns exactly \<open>1\<close> when
  \<open>|ZL + Z0| < 1e-12\<close> and \<open>(ZL - Z0)/(ZL + Z0)\<close> otherwise. Neither call ends in an
  error, on any input.
\<close>

theorem degenerate_denominators_saturate:
  "z_in_from_abcd (A, B, C, D) ZL =
     Inr (if cmod (C * ZL + D) < 1 / 10 ^ 12 then PosInf
          else Fin ((A * ZL + B) / (C * ZL + D)))
   \<and> gamma_of_impedance ZL' Z0 =
     Inr (if cmod (ZL' + Z0) < 1 / 10 ^ 12 then 1 else (ZL' - Z0) / (ZL' + Z0))"
  using z_in_from_abcd_value [of A B C D ZL] gamma_of_impedance_value [of ZL' Z0]
  by (rule conjI)

theorem degenerate_denominators_saturate_witness:
  "z_in_from_abcd (1, 50, 0, 1) 50 = Inr (Fin 100)
   \<and> z_in_from_abcd (1, 50, 1, 0) 0 = Inr PosInf
   \<and> gamma_of_impedance 50 50 = Inr 0
   \<and> gamma_of_impedance (- 50) 50 = Inr 1"
  using degenerate_denominators_saturate [of 1 50 0 1 50 50 50]
    degenerate_denominators_saturate [of 1 50 1 0 0 "- 50" 50]
  by simp

subsection \<open>Two-port algebra\<close>

lemma abcd_of_tline_nonzero:
  "Z0 \<noteq> 0 \<Longrightarrow> abcd_of_tline gamma Z0 len =
     Inr (cosh (gamma * of_real len), Z0 * sinh (gamma * of_real len),
          (1 / Z0) * sinh (gamma * of_real len), cosh (gamma * of_real len))"
  by (simp add: abcd_of_tline_def py_div_def)

text \<open>
  Claim C8. A zero-length line is the identity of the two-port algebra: for every
  \<open>gamma\<close>, every \<open>Z0 \<noteq> 0\<close> and every load \<open>ZL\<close>,
  \<open>z_in_from_abcd (abcd_of_tline gamma Z0 0) ZL\<close> is \<open>ZL\<close>.
\<close>

theorem zero_length_line_identity:
  assumes "Z0 \<noteq> 0"
  shows "\<exists>m. abcd_of_tline gamma Z0 0 = Inr m \<and> z_in_from_abcd m ZL = Inr (Fin ZL)"
proof -
  have m: "abcd_of_tline gamma Z0 0 = Inr (1, 0, 0, 1)"
    using assms by (simp add: abcd_of_tline_nonzero)
  have "z_in_from_abcd (1, 0, 0, 1) ZL = Inr (Fin ZL)"
    by (simp add: py_div_def)
  with m show ?thesis by simp
qed

theorem zero_length_line_identity_witness:
  "\<exists>m. abcd_of_tline \<i> 50 0 = Inr m \<and> z_in_from_abcd m (Complex 100 50) = Inr (Fin (Complex 100 50))"
  using zero_length_line_identity [of 50 \<i> "Complex 100 50"] by simp

text \<open>
  Claim C9. Line-segment matrices are additive in length: for every \<open>gamma\<close>, every
  nonzero \<open>Z0\<close> and all lengths \<open>l1\<close>, \<open>l2\<close>, cascading the matrices of two segments gives
  the matrix of one segment of length \<open>l1 + l2\<close> (exactly, over the complex numbers).
\<close>

theorem tline_cascade_additive:
  assumes "Z0 \<noteq> 0"
  shows "\<exists>m1 m2 m. abcd_of_tline gamma Z0 l1 = Inr m1 \<and> abcd_of_tline gamma Z0 l2 = Inr m2
           \<and> abcd_of_tline gamma Z0 (l1 + l2) = Inr m \<and> cascade_abcd [m1, m2] = m"
proof -
  let ?a = "gamma * of_real l1" and ?b = "gamma * of_real l2"
  have sum: "gamma * of_real (l1 + l2) = ?a + ?b"
    by (simp add: algebra_simps)
  have A: "cosh ?a * cosh ?b + Z0 * sinh ?a * ((1 / Z0) * sinh ?b) = cosh (?a + ?b)"
    using assms by (simp add: cosh_add)
  have B: "cosh ?a * (Z0 * sinh ?b) + Z0 * sinh ?a * cosh ?b = Z0 * sinh (?a + ?b)"
    by (simp add: sinh_add algebra_simps)
  have C: "(1 / Z0) * sinh ?a * cosh ?b + cosh ?a * ((1 / Z0) * sinh ?b)
             = (1 / Z0) * sinh (?a + ?b)"
    by (simp add: sinh_add algebra_simps)
  have D: "(1 / Z0) * sinh ?a * (Z0 * sinh ?b) + cosh ?a * cosh ?b = cosh (?a + ?b)"
    using assms by (simp add: cosh_add)
  have "cascade_abcd
          [(cosh ?a, Z0 * sinh ?a, (1 / Z0) * sinh ?a, cosh ?a),
           (cosh ?b, Z0 * sinh ?b, (1 / Z0) * sinh ?b, cosh ?b)]
        = (cosh (?a + ?b), Z0 * sinh (?a + ?b), (1 / Z0) * sinh (?a + ?b), cosh (?a + ?b))"
    unfolding cascade_abcd_def eye2_def using A B C D by simp
  moreover have "abcd_of_tline gamma Z0 (l1 + l2)
      = Inr (cosh (?a + ?b), Z0 * sinh (?a + ?b), (1 / Z0) * sinh (?a + ?b), cosh (?a + ?b))"
    using abcd_of_tline_nonzero [OF assms, of gamma "l1 + l2"] by (simp only: sum)
  ultimately show ?thesis
    using abcd_of_tline_nonzero [OF assms, of gamma l1]
      abcd_of_tline_nonzero [OF assms, of gamma l2] by simp
qed

theorem tline_cascade_additive_witness:
  "\<exists>m1 m2 m. abcd_of_tline \<i> 50 (1 / 10) = Inr m1 \<and> abcd_of_tline \<i> 50 (1 / 10) = Inr m2
           \<and> abcd_of_tline \<i> 50 (1 / 10 + 1 / 10) = Inr m \<and> cascade_abcd [m1, m2] = m"
  using tline_cascade_additive [of 50 \<i> "1 / 10" "1 / 10"] by simp

subsection \<open>Metrics\<close>

text \<open>
  Claim C10, as amended. For every reflection coefficient \<open>Gamma\<close> that is not \<^verbatim>\<open>nan\<close>,
  \<open>vswr_from_gamma\<close> is at least \<open>1\<close>: it returns positive infinity when \<open>|Gamma| \<ge> 1\<close>
  (also for an infinite \<open>|Gamma|\<close>) and the finite value \<open>(1 + |Gamma|)/(1 - |Gamma|) \<ge> 1\<close>
  otherwise. On a \<^verbatim>\<open>nan\<close> it returns \<^verbatim>\<open>nan\<close>. It never ends in an error.
\<close>

theorem vswr_at_least_one:
  "\<exists>v. vswr_from_gamma Gamma = Inr v
       \<and> v = (case Gamma of
                Fin G \<Rightarrow> if cmod G \<ge> 1 then PosInf else Fin ((1 + cmod G) / (1 - cmod G))
              | PosInf \<Rightarrow> PosInf
              | NaN \<Rightarrow> NaN)
       \<and> (Gamma \<noteq> NaN \<longrightarrow> ext_ge v 1)"
proof (cases Gamma)
  case (Fin G)
  show ?thesis
  proof (cases "cmod G \<ge> 1")
    case True
    with Fin show ?thesis by (simp add: vswr_from_gamma_value)
  next
    case False
    then have lt: "cmod G < 1" by simp
    have "1 \<le> (1 + cmod G) / (1 - cmod G)"
      using lt by (simp add: le_divide_eq)
    with lt Fin show ?thesis by (simp add: vswr_from_gamma_value)
  qed
qed simp_all

theorem vswr_at_least_one_witness:
  "vswr_from_gamma (Fin (1 / 2)) = Inr (Fin 3) \<and> vswr_from_gamma (Fin 0) = Inr (Fin 1)
   \<and> vswr_from_gamma (Fin \<i>) = Inr PosInf \<and> vswr_from_gamma PosInf = Inr PosInf"
  using vswr_at_least_one [of "Fin (1 / 2)"] vswr_at_least_one [of "Fin 0"]
    vswr_at_least_one [of "Fin \<i>"] vswr_at_least_one [of PosInf]
  by (auto simp: norm_divide)

text \<open>
  The claim as stated, for every reflection coefficient, fails on the \<^verbatim>\<open>nan\<close> that both
  solvers can pass: the result is \<^verbatim>\<open>nan\<close>, which is not at least \<open>1\<close>.
\<close>

theorem vswr_nan_counterexample:
  "vswr_from_gamma NaN = Inr NaN \<and> \<not> ext_ge NaN 1
   \<and> source_vswr PosInf 50 = Inr NaN"
  by (simp add: source_vswr_def)

subsection \<open>Propagation constant and characteristic impedance\<close>

lemma Re_np_sqrt [simp]: "Re (np_sqrt z n) = Re (csqrt z)"
  by (simp add: np_sqrt_def)

lemma power2_np_sqrt [simp]: "(np_sqrt z n)\<^sup>2 = z"
proof (cases "Im z = 0 \<and> n")
  case True
  have "cnj z = z" using True by (simp add: complex_eq_iff)
  moreover have "(cnj (csqrt z))\<^sup>2 = cnj ((csqrt z)\<^sup>2)"
    by (simp only: complex_cnj_power)
  ultimately have "(cnj (csqrt z))\<^sup>2 = z" by (simp only: power2_csqrt)
  then show ?thesis using True by (simp add: np_sqrt_def)
next
  case False
  then show ?thesis by (auto simp: np_sqrt_def)
qed

lemma np_sqrt_off_axis: "Im z \<noteq> 0 \<Longrightarrow> np_sqrt z n = csqrt z"
  by (simp add: np_sqrt_def)

lemma np_sqrt_nonneg_real:
  assumes "0 \<le> x"
  shows "np_sqrt (of_real x) n = of_real (sqrt x)"
proof -
  have "csqrt (of_real x) = of_real (sqrt x)"
    using csqrt_of_real_nonneg [of "of_real x"] assms by simp
  then show ?thesis by (simp add: np_sqrt_def)
qed

lemma np_sqrt_neg_real:
  assumes "x < 0"
  shows "np_sqrt (of_real x) n = (if n then - \<i> else \<i>) * of_real (sqrt (- x))"
proof -
  have "csqrt (of_real x) = \<i> * of_real (sqrt \<bar>x\<bar>)"
    using csqrt_of_real_nonpos [of "of_real x"] assms by simp
  moreover have "\<bar>x\<bar> = - x" using assms by simp
  ultimately show ?thesis by (simp add: np_sqrt_def)
qed

lemma Im_csqrt_nonneg: "0 \<le> Im z \<Longrightarrow> 0 \<le> Im (csqrt z)"
  using complex_Re_le_cmod [of z] by (simp add: sgn_if)

lemma Re_csqrt_nonneg: "0 \<le> Re (csqrt z)"
  using csqrt_principal [of z] by linarith

lemma gamma_Z0_Inr:
  assumes "Complex G (2 * pi * f * C) \<noteq> 0"
  shows "gamma_Z0 R L G C f =
     Inr (np_sqrt (Complex R (2 * pi * f * L) * Complex G (2 * pi * f * C))
            (cprod_neg_zero (Complex R (2 * pi * f * L)) (Complex G (2 * pi * f * C))),
          np_sqrt (Complex R (2 * pi * f * L) / Complex G (2 * pi * f * C))
            (cquot_neg_zero (Complex R (2 * pi * f * L)) (Complex G (2 * pi * f * C))))"
proof -
  have Z: "of_real R + \<i> * of_real (2 * pi * f) * of_real L = Complex R (2 * pi * f * L)"
    by (simp add: complex_eq_iff)
  have Y: "of_real G + \<i> * of_real (2 * pi * f) * of_real C = Complex G (2 * pi * f * C)"
    by (simp add: complex_eq_iff)
  show ?thesis
    unfolding gamma_Z0_def Let_def Z Y using assms by (simp add: py_div_def)
qed

lemma gamma_Z0_Inl:
  assumes "Complex G (2 * pi * f * C) = 0"
  shows "gamma_Z0 R L G C f = Inl ZeroDivisionError"
proof -
  have Y: "of_real G + \<i> * of_real (2 * pi * f) * of_real C = Complex G (2 * pi * f * C)"
    by (simp add: complex_eq_iff)
  show ?thesis
    unfolding gamma_Z0_def Let_def Y using assms by (simp add: py_div_def)
qed

lemma gamma_Z0_InrD:
  assumes "gamma_Z0 R L G C f = Inr (gamma, Z0)"
  shows "Complex G (2 * pi * f * C) \<noteq> 0"
    and "gamma = np_sqrt (Complex R (2 * pi * f * L) * Complex G (2 * pi * f * C))
            (cprod_neg_zero (Complex R (2 * pi * f * L)) (Complex G (2 * pi * f * C)))"
    and "Z0 = np_sqrt (Complex R (2 * pi * f * L) / Complex G (2 * pi * f * C))
            (cquot_neg_zero (Complex R (2 * pi * f * L)) (Complex G (2 * pi * f * C)))"
proof -
  show ne: "Complex G (2 * pi * f * C) \<noteq> 0"
    using assms gamma_Z0_Inl [of G f C R L] by auto
  from assms gamma_Z0_Inr [OF ne, of R L]
  show "gamma = np_sqrt (Complex R (2 * pi * f * L) * Complex G (2 * pi * f * C))
            (cprod_neg_zero (Complex R (2 * pi * f * L)) (Complex G (2 * pi * f * C)))"
    and "Z0 = np_sqrt (Complex R (2 * pi * f * L) / Complex G (2 * pi * f * C))
            (cquot_neg_zero (Complex R (2 * pi * f * L)) (Complex G (2 * pi * f * C)))"
    by simp_all
qed

lemma cmod_Complex_0: "cmod (Complex 0 y) = \<bar>y\<bar>"
  by (simp add: cmod_def)

lemma csqrt_neg_imaginary:
  assumes "0 < y"
  shows "csqrt (Complex 0 (- (2 * y))) = Complex (sqrt y) (- sqrt y)"
  using assms by (simp add: complex_eq_iff cmod_Complex_0)

lemma gamma_Z0_negative_inductance:
  "gamma_Z0 0 (- 1) 1 0 1 = Inr (Complex (sqrt pi) (- sqrt pi), Complex (sqrt pi) (- sqrt pi))"
proof -
  have z: "Complex 0 (2 * pi * 1 * (- 1)) * Complex 1 (2 * pi * 1 * 0) = Complex 0 (- (2 * pi))"
       "Complex 0 (2 * pi * 1 * (- 1)) / Complex 1 (2 * pi * 1 * 0) = Complex 0 (- (2 * pi))"
    by (simp_all add: complex_eq_iff Re_divide Im_divide)
  have ne: "Complex 1 (2 * pi * 1 * 0) \<noteq> 0" by (simp add: complex_eq_iff)
  have off: "np_sqrt (Complex 0 (- (2 * pi))) n = csqrt (Complex 0 (- (2 * pi)))" for n
    by (rule np_sqrt_off_axis) simp
  show ?thesis
    using gamma_Z0_Inr [OF ne, of 0 "- 1"]
    by (simp only: z off csqrt_neg_imaginary [OF pi_gt_zero])
qed

text \<open>
  Claim C3, as amended. For every real input tuple \<open>(R, L, G, C, f)\<close> on which \<open>gamma_Z0\<close>
  returns (it raises \<^verbatim>\<open>ZeroDivisionError\<close> when \<open>G\<close> and \<open>2*pi*f*C\<close> are both zero), with
  finite results: \<open>Re gamma \<ge> 0\<close> and \<open>Re Z0 \<ge> 0\<close> (the principal branch: non-negative
  attenuation, non-negative resistive component), and \<open>Im gamma \<ge> 0\<close> whenever \<open>f > 0\<close> and
  \<open>R\<close>, \<open>L\<close>, \<open>G\<close>, \<open>C\<close> are non-negative.
\<close>

theorem gamma_Z0_principal_branch:
  assumes "gamma_Z0 R L G C f = Inr (gamma, Z0)"
  shows "0 \<le> Re gamma \<and> 0 \<le> Re Z0
         \<and> (0 \<le> R \<and> 0 \<le> L \<and> 0 \<le> G \<and> 0 \<le> C \<and> 0 < f \<longrightarrow> 0 \<le> Im gamma)"
proof -
  define a where "a = 2 * pi * f * L"
  define b where "b = 2 * pi * f * C"
  note v = gamma_Z0_InrD [OF assms, folded a_def b_def]
  have re: "0 \<le> Re gamma" "0 \<le> Re Z0"
    by (simp_all only: v(2,3) Re_np_sqrt Re_csqrt_nonneg)
  have "0 \<le> Im gamma" if h: "0 \<le> R \<and> 0 \<le> L \<and> 0 \<le> G \<and> 0 \<le> C \<and> 0 < f"
  proof -
    have a: "0 \<le> a" and b: "0 \<le> b" using h by (simp_all add: a_def b_def)
    have "\<not> cprod_neg_zero (Complex R a) (Complex G b)"
      using h a b by (auto simp: cprod_neg_zero_def neg_zero_def)
    then have g: "gamma = csqrt (Complex R a * Complex G b)"
      by (simp add: v(2) np_sqrt_def)
    have "0 \<le> R * b" "0 \<le> a * G" using h a b by simp_all
    then have "0 \<le> Im (Complex R a * Complex G b)" by simp
    then show ?thesis unfolding g by (rule Im_csqrt_nonneg)
  qed
  with re show ?thesis by blast
qed

theorem gamma_Z0_principal_branch_witness:
  "\<exists>gamma Z0. gamma_Z0 (5 / 100) (2 / 10 ^ 7) (1 / 10 ^ 8) (1 / 10 ^ 10) (10 ^ 9) = Inr (gamma, Z0)
      \<and> 0 \<le> Re gamma \<and> 0 \<le> Re Z0 \<and> 0 \<le> Im gamma"
proof -
  have "Complex (1 / 10 ^ 8) (2 * pi * 10 ^ 9 * (1 / 10 ^ 10)) \<noteq> 0"
    by (simp add: complex_eq_iff)
  from gamma_Z0_Inr [OF this, of "5 / 100" "2 / 10 ^ 7"]
  obtain gamma Z0 where
    gz: "gamma_Z0 (5 / 100) (2 / 10 ^ 7) (1 / 10 ^ 8) (1 / 10 ^ 10) (10 ^ 9) = Inr (gamma, Z0)"
    by blast
  from gamma_Z0_principal_branch [OF gz] gz show ?thesis by auto
qed

text \<open>
  The claim as stated, strict signs for every real tuple with \<open>f > 0\<close>, fails: with
  \<open>L = C = 0\<close> the propagation constant is real (\<open>Im gamma = 0\<close>); with \<open>R = L = 0\<close> the
  characteristic impedance is \<open>0\<close>; with a negative inductance \<open>Im gamma\<close> is negative;
  with \<open>G = C = 0\<close> nothing is returned.
\<close>

theorem gamma_Z0_branch_counterexample:
  "gamma_Z0 1 0 1 0 1 = Inr (1, 1) \<and> \<not> 0 < Im (1::complex)
   \<and> gamma_Z0 0 0 1 0 1 = Inr (0, 0) \<and> \<not> 0 < Re (0::complex)
   \<and> gamma_Z0 0 (- 1) 1 0 1 = Inr (Complex (sqrt pi) (- sqrt pi), Complex (sqrt pi) (- sqrt pi))
   \<and> \<not> 0 < Im (Complex (sqrt pi) (- sqrt pi))
   \<and> gamma_Z0 1 1 0 0 1 = Inl ZeroDivisionError"
proof -
  have one: "Complex 1 0 = 1" and zero: "Complex 0 0 = 0"
    by (simp_all add: complex_eq_iff)
  have r1: "np_sqrt 1 n = 1" and r0: "np_sqrt 0 n = 0" for n
    using np_sqrt_nonneg_real [of 1 n] np_sqrt_nonneg_real [of 0 n] by simp_all
  have "gamma_Z0 1 0 1 0 1 = Inr (1, 1)"
    using gamma_Z0_Inr [of 1 1 0 1 0] by (simp add: one r1)
  moreover have "gamma_Z0 0 0 1 0 1 = Inr (0, 0)"
    using gamma_Z0_Inr [of 1 1 0 0 0] by (simp add: one zero r0)
  moreover have "gamma_Z0 1 1 0 0 1 = Inl ZeroDivisionError"
    by (rule gamma_Z0_Inl) (simp add: zero)
  ultimately show ?thesis
    using gamma_Z0_negative_inductance by simp
qed

subsection \<open>Quarter-wave transformer\<close>

lemma gamma_Z0_lossless_gen:
  assumes LC: "0 < L * C" and f: "f \<noteq> 0"
  shows "gamma_Z0 0 L 0 C f =
           Inr ((if f * L < 0 then - \<i> else \<i>) * of_real (2 * pi * \<bar>f\<bar> * sqrt (L * C)),
                of_real (sqrt (L / C)))"
proof -
  define a where "a = 2 * pi * f * L"
  define b where "b = 2 * pi * f * C"
  have "a * b = (2 * pi * f)\<^sup>2 * (L * C)" by (simp add: a_def b_def power2_eq_square)
  moreover have "0 < (2 * pi * f)\<^sup>2" using f by simp
  ultimately have ab: "0 < a * b" using LC by simp
  then have b0: "b \<noteq> 0" by auto
  have Y0: "Complex 0 b \<noteq> 0" using b0 by (simp add: complex_eq_iff)
  have sa: "(a < 0) = (f * L < 0)"
  proof -
    have "a = (2 * pi) * (f * L)" by (simp add: a_def)
    then show ?thesis by (simp add: mult_less_0_iff)
  qed
  have sb: "(b < 0) = (a < 0)" using ab by (auto simp: zero_less_mult_iff)
  have flag: "cprod_neg_zero (Complex 0 a) (Complex 0 b) = (f * L < 0)"
    using sa sb by (auto simp: cprod_neg_zero_def neg_zero_def)
  have prod: "Complex 0 a * Complex 0 b = of_real (- (a * b))"
    by (simp add: complex_eq_iff)
  have rt: "sqrt (a * b) = 2 * pi * \<bar>f\<bar> * sqrt (L * C)"
  proof -
    have "a * b = (2 * pi * f)\<^sup>2 * (L * C)" by (simp add: a_def b_def power2_eq_square)
    then have "sqrt (a * b) = sqrt ((2 * pi * f)\<^sup>2) * sqrt (L * C)"
      by (simp only: real_sqrt_mult)
    moreover have "sqrt ((2 * pi * f)\<^sup>2) = 2 * pi * \<bar>f\<bar>"
      by (simp only: real_sqrt_abs) (simp add: abs_mult)
    ultimately show ?thesis by simp
  qed
  have "np_sqrt (of_real (- (a * b))) (f * L < 0)
          = (if f * L < 0 then - \<i> else \<i>) * of_real (sqrt (- (- (a * b))))"
    using ab by (intro np_sqrt_neg_real) simp
  then have g: "np_sqrt (Complex 0 a * Complex 0 b) (cprod_neg_zero (Complex 0 a) (Complex 0 b))
          = (if f * L < 0 then - \<i> else \<i>) * of_real (2 * pi * \<bar>f\<bar> * sqrt (L * C))"
    by (simp only: prod flag rt minus_minus)
  have f0: "2 * pi * f \<noteq> 0" and C0: "C \<noteq> 0" using b0 by (auto simp: b_def)
  have quot_r: "a / b = L / C" using f0 C0 by (simp add: a_def b_def)
  have "0 < a / b" using ab by (simp add: zero_less_mult_iff zero_less_divide_iff)
  then have lc: "0 \<le> L / C" by (simp only: quot_r)
  have quot: "Complex 0 a / Complex 0 b = of_real (L / C)"
    using b0 quot_r by (simp add: complex_eq_iff Re_divide Im_divide power2_eq_square)
  have z: "np_sqrt (Complex 0 a / Complex 0 b) n = of_real (sqrt (L / C))" for n
    unfolding quot using lc by (rule np_sqrt_nonneg_real)
  have "gamma_Z0 0 L 0 C f =
      Inr (np_sqrt (Complex 0 a * Complex 0 b) (cprod_neg_zero (Complex 0 a) (Complex 0 b)),
           np_sqrt (Complex 0 a / Complex 0 b) (cquot_neg_zero (Complex 0 a) (Complex 0 b)))"
    using Y0 unfolding a_def b_def by (rule gamma_Z0_Inr)
  then show ?thesis by (simp only: g z)
qed

lemma gamma_Z0_lossless:
  assumes "0 < L" "0 < C" "0 < f"
  shows "gamma_Z0 0 L 0 C f = Inr (\<i> * of_real (2 * pi * f * sqrt (L * C)), of_real (sqrt (L / C)))"
proof -
  have "\<not> f * L < 0" using assms by (simp add: mult_less_0_iff)
  moreover have "0 < L * C" "f \<noteq> 0" "\<bar>f\<bar> = f" using assms by simp_all
  ultimately show ?thesis using gamma_Z0_lossless_gen [of L C f] by simp
qed









subsection \<open>Single-stub shunt tuner\<close>

lemma sweep_cases:
  "sweep Z0 b ZL y0 ds (m, best) = (m', best') \<Longrightarrow>
     (m' = m \<and> best' = best \<and> (\<forall>u\<in>set ds. \<forall>x e Y. u = Some x \<longrightarrow> sample Z0 b ZL y0 x = Some (e, Y) \<longrightarrow> m \<le> e))
   \<or> (\<exists>pre d Y post. ds = pre @ Some d # post \<and> sample Z0 b ZL y0 d = Some (m', Y)
         \<and> best' = Some (d, Y) \<and> m' < m
         \<and> (\<forall>u\<in>set pre. \<forall>x e Y'. u = Some x \<longrightarrow> sample Z0 b ZL y0 x = Some (e, Y') \<longrightarrow> m' < e)
         \<and> (\<forall>u\<in>set post. \<forall>x e Y'. u = Some x \<longrightarrow> sample Z0 b ZL y0 x = Some (e, Y') \<longrightarrow> m' \<le> e))"
proof (induction ds arbitrary: m best)
  case Nil
  then show ?case by simp
next
  case (Cons u ds)
  let ?ge = "\<lambda>c us. \<forall>u\<in>set us. \<forall>x e Y. u = Some x \<longrightarrow> sample Z0 b ZL y0 x = Some (e, Y) \<longrightarrow> c \<le> e"
  let ?gt = "\<lambda>c us. \<forall>u\<in>set us. \<forall>x e Y. u = Some x \<longrightarrow> sample Z0 b ZL y0 x = Some (e, Y) \<longrightarrow> c < e"
  let ?found = "\<lambda>c us. \<exists>pre d Y post. us = pre @ Some d # post \<and> sample Z0 b ZL y0 d = Some (m', Y)
         \<and> best' = Some (d, Y) \<and> m' < c \<and> ?gt m' pre \<and> ?ge m' post"
  have later: "?found c (u # ds)" if f: "?found c' ds" and c: "c' \<le> c" and hd: "?gt m' [u]" for c c'
  proof -
    from f obtain pre d Y post where h: "ds = pre @ Some d # post" "sample Z0 b ZL y0 d = Some (m', Y)"
         "best' = Some (d, Y)" "m' < c'" "?gt m' pre" "?ge m' post"
      by blast
    have "u # ds = (u # pre) @ Some d # post" using h(1) by simp
    moreover have "?gt m' (u # pre)" using h(5) hd by simp
    moreover have "m' < c" using h(4) c by linarith
    ultimately show ?thesis using h(2,3,6) by blast
  qed
  consider (skip) "sweep Z0 b ZL y0 ds (m, best) = (m', best')" "?ge m [u]"
    | (take) x e Y where "u = Some x" "sample Z0 b ZL y0 x = Some (e, Y)" "e < m"
        "sweep Z0 b ZL y0 ds (e, Some (x, Y)) = (m', best')"
  proof (cases u)
    case None
    with Cons.prems have "sweep Z0 b ZL y0 ds (m, best) = (m', best')" by simp
    with None show ?thesis by (intro skip) simp_all
  next
    case (Some x)
    show ?thesis
    proof (cases "sample Z0 b ZL y0 x")
      case None
      with Some Cons.prems have "sweep Z0 b ZL y0 ds (m, best) = (m', best')" by simp
      with None Some show ?thesis by (intro skip) simp_all
    next
      case (Some p)
      obtain e Y where p: "p = (e, Y)" by (cases p)
      show ?thesis
      proof (cases "e < m")
        case True
        with Some p \<open>u = Some x\<close> Cons.prems
        have "sweep Z0 b ZL y0 ds (e, Some (x, Y)) = (m', best')" by simp
        with True Some p \<open>u = Some x\<close> show ?thesis by (intro take) simp_all
      next
        case False
        with Some p \<open>u = Some x\<close> Cons.prems
        have "sweep Z0 b ZL y0 ds (m, best) = (m', best')" by simp
        with False Some p \<open>u = Some x\<close> show ?thesis by (intro skip) simp_all
      qed
    qed
  qed
  then show ?case
  proof cases
    case skip
    from Cons.IH [OF skip(1)] show ?thesis
    proof
      assume "m' = m \<and> best' = best \<and> ?ge m ds"
      then show ?thesis using skip(2) by simp
    next
      assume f: "?found m ds"
      then have "m' < m" by blast
      then have "?gt m' [u]" using skip(2) by fastforce
      with f have "?found m (u # ds)" by (intro later [of m]) simp_all
      then show ?thesis by blast
    qed
  next
    case take
    from Cons.IH [OF take(4)] show ?thesis
    proof
      assume a: "m' = e \<and> best' = Some (x, Y) \<and> ?ge e ds"
      have "u # ds = [] @ Some x # ds" using take(1) by simp
      moreover have "?gt m' []" by simp
      ultimately have "?found m (u # ds)" using a take(2,3) by blast
      then show ?thesis by blast
    next
      assume f: "?found e ds"
      then have "m' < e" by blast
      then have "?gt m' [u]" using take(1,2) by simp
      with f have "?found m (u # ds)" using take(3) by (intro later [of e]) simp_all
      then show ?thesis by blast
    qed
  qed
qed


lemma gamma_Z0_lossless_shape:
  assumes gz: "gamma_Z0 0 L 0 C f = Inr (gamma, Z0)" and nz: "Im gamma \<noteq> 0"
  shows "0 < L / C \<and> Z0 = of_real (sqrt (L / C)) \<and> (0 < Im gamma) = (0 < f * L)"
proof -
  define a where "a = 2 * pi * f * L"
  define b where "b = 2 * pi * f * C"
  note v = gamma_Z0_InrD [OF gz, folded a_def b_def]
  have prod: "Complex 0 a * Complex 0 b = of_real (- (a * b))"
    by (simp add: complex_eq_iff)
  have ab: "0 < a * b"
  proof (rule ccontr)
    assume "\<not> 0 < a * b"
    then have "0 \<le> - (a * b)" by simp
    then have "np_sqrt (of_real (- (a * b))) n = of_real (sqrt (- (a * b)))" for n
      by (rule np_sqrt_nonneg_real)
    then have "Im gamma = 0" by (simp only: v(2) prod Im_complex_of_real)
    with nz show False by simp
  qed
  have sq: "a * b = (2 * pi * f)\<^sup>2 * (L * C)" by (simp add: a_def b_def power2_eq_square)
  have f0: "f \<noteq> 0" using ab by (auto simp: a_def)
  have "0 \<le> (2 * pi * f)\<^sup>2" by simp
  with ab sq have LC: "0 < L * C" by (simp add: zero_less_mult_iff)
  then have L0: "L \<noteq> 0" by auto
  have lc: "0 < L / C" using LC by (simp add: zero_less_mult_iff zero_less_divide_iff)
  define m where "m = 2 * pi * \<bar>f\<bar> * sqrt (L * C)"
  have mpos: "0 < m" using f0 LC by (simp add: m_def)
  from gz gamma_Z0_lossless_gen [OF LC f0]
  have g: "gamma = (if f * L < 0 then - \<i> else \<i>) * of_real m"
    and z: "Z0 = of_real (sqrt (L / C))"
    by (simp_all add: m_def)
  define x where "x = f * L"
  have x0: "x \<noteq> 0" using f0 L0 by (simp add: x_def)
  have "Im gamma = (if x < 0 then - m else m)" by (simp add: g x_def)
  then have "(0 < Im gamma) = (0 < x)"
    using mpos x0 by (cases "x < 0") simp_all
  with lc z show ?thesis by (simp add: x_def)
qed


lemma stub_theta_real:
  assumes "Im target = 0"
  shows "\<exists>th. stub_theta target = Inr th"
  using assms by (simp add: stub_theta_def Let_def)


lemma stub_length_returns:
  assumes "Im Z0 = 0"
  shows "\<exists>ls Ys. stub_length prefer B Z0 y0v beta = Inr (ls, Ys)"
proof -
  have "Im (- of_real B * Z0) = 0" "Im (of_real B * Z0) = 0" using assms by simp_all
  then obtain t1 t2 where "stub_theta (- of_real B * Z0) = Inr t1" "stub_theta (of_real B * Z0) = Inr t2"
    using stub_theta_real by blast
  then show ?thesis by (simp add: stub_length_def Let_def)
qed

lemma stub_vswr_returns:
  assumes "Z0 \<noteq> 0"
  shows "\<exists>v. stub_vswr gamma Z0 l ZL d Ys = Inr v"
proof (cases Ys)
  case None
  then show ?thesis using assms by (simp add: stub_vswr_def abcd_of_tline_nonzero)
next
  case (Some Y)
  let ?m1 = "(cosh (gamma * of_real d), Z0 * sinh (gamma * of_real d),
        (1 / Z0) * sinh (gamma * of_real d), cosh (gamma * of_real d))"
  let ?m2 = "(cosh (gamma * of_real (l - d)), Z0 * sinh (gamma * of_real (l - d)),
        (1 / Z0) * sinh (gamma * of_real (l - d)), cosh (gamma * of_real (l - d)))"
  have a1: "abcd_of_tline gamma Z0 d = Inr ?m1" and a2: "abcd_of_tline gamma Z0 (l - d) = Inr ?m2"
    using assms by (rule abcd_of_tline_nonzero)+
  obtain A B C D where m: "cascade_abcd [?m1, abcd_of_shunt_admittance Y, ?m2] = (A, B, C, D)"
    using prod_cases4 by blast
  have "stub_vswr gamma Z0 l ZL d Ys = source_vswr
      (if cmod (C * ZL + D) < 1 / 10 ^ 12 then PosInf else Fin ((A * ZL + B) / (C * ZL + D))) Z0"
    by (simp only: stub_vswr_def a1 a2 Some sum.case option.case Let_def m z_in_from_abcd_value)
  then show ?thesis using source_vswr_returns by simp
qed


lemma single_stub_unfold:
  assumes "gamma_Z0 0 L 0 C f0 = Inr (gamma, Z0)"
  shows "single_stub_shunt R L G C f0 l ZL prefer =
    (case (snd (sweep Z0 (Im gamma) ZL (np_div 1 Z0)
                 (np_linspace 0 (map_option (\<lambda>lam. lam / 2) (np_div (2 * pi) (Im gamma))) 1000)
                 (10 ^ 9, None)), np_div 1 Z0) of
       (Some (d_best, Yin_best), Some y0v) \<Rightarrow>
         (case stub_length prefer (- Im (Yin_best - y0v)) Z0 y0v (Im gamma) of
            Inl e \<Rightarrow> Inl e
          | Inr (stub_len, Y_stub) \<Rightarrow>
              (case stub_vswr gamma Z0 l ZL d_best Y_stub of
                 Inl e \<Rightarrow> Inl e
               | Inr VSWR_src \<Rightarrow>
                   Inr \<lparr>st_VSWR_src = VSWR_src, d_opt = d_best, l_stub = stub_len,
                        st_notes = (d_best, Yin_best, - Im (Yin_best - y0v), stub_len)\<rparr>))
     | _ \<Rightarrow> Inl TypeError)"
  by (simp only: single_stub_shunt_def assms sum.case prod.case Let_def)

lemma single_stub_InrE:
  assumes "single_stub_shunt R L G C f0 l ZL prefer = Inr r"
  obtains gamma Z0 d Yin y0v ls Ys v where
    "gamma_Z0 0 L 0 C f0 = Inr (gamma, Z0)"
    "snd (sweep Z0 (Im gamma) ZL (np_div 1 Z0)
            (np_linspace 0 (map_option (\<lambda>lam. lam / 2) (np_div (2 * pi) (Im gamma))) 1000)
            (10 ^ 9, None)) = Some (d, Yin)"
    "np_div 1 Z0 = Some y0v"
    "stub_length prefer (- Im (Yin - y0v)) Z0 y0v (Im gamma) = Inr (ls, Ys)"
    "stub_vswr gamma Z0 l ZL d Ys = Inr v"
    "r = \<lparr>st_VSWR_src = v, d_opt = d, l_stub = ls, st_notes = (d, Yin, - Im (Yin - y0v), ls)\<rparr>"
proof -
  obtain gamma Z0 where gz: "gamma_Z0 0 L 0 C f0 = Inr (gamma, Z0)"
    using assms by (cases "gamma_Z0 0 L 0 C f0") (auto simp: single_stub_shunt_def)
  show ?thesis
    using assms that [OF gz] unfolding single_stub_unfold [OF gz]
    by (auto split: option.splits sum.splits prod.splits)
qed


lemma sweep_best_from_None:
  assumes "snd (sweep Z0 b ZL y0 ds (m, None)) = Some (d, Y)"
  shows "\<exists>pre post e. ds = pre @ Some d # post \<and> sample Z0 b ZL y0 d = Some (e, Y) \<and> e < m
           \<and> (\<forall>u\<in>set pre. \<forall>x e' Y'. u = Some x \<longrightarrow> sample Z0 b ZL y0 x = Some (e', Y') \<longrightarrow> e < e')
           \<and> (\<forall>u\<in>set post. \<forall>x e' Y'. u = Some x \<longrightarrow> sample Z0 b ZL y0 x = Some (e', Y') \<longrightarrow> e \<le> e')"
proof -
  obtain m' where sw: "sweep Z0 b ZL y0 ds (m, None) = (m', Some (d, Y))"
    using assms by (cases "sweep Z0 b ZL y0 ds (m, None)") simp
  from sweep_cases [OF sw] show ?thesis by auto
qed

lemma sweep_keeps_best:
  "snd (sweep Z0 b ZL y0 ds (m, Some p)) \<noteq> None"
proof -
  obtain m' best' where sw: "sweep Z0 b ZL y0 ds (m, Some p) = (m', best')"
    by (cases "sweep Z0 b ZL y0 ds (m, Some p)")
  from sweep_cases [OF sw] show ?thesis using sw by auto
qed

lemma np_linspace_Some_mem:
  assumes "Some d \<in> set (np_linspace a stop n)"
  shows "\<exists>s. stop = Some s \<and> np_linspace a stop n = map Some (linspace a s n)"
  using assms by (cases stop) (auto simp: np_linspace_def)

lemma linspace_nth:
  "j < n \<Longrightarrow> linspace a s n ! j = a + real j * ((s - a) / real (n - 1))"
  by (simp add: linspace_def)

lemma length_linspace: "length (linspace a s n) = n"
  by (simp add: linspace_def)

text \<open>
  Claim C5. The tap position \<open>d_opt\<close> returned by \<open>single_stub_shunt\<close> is one of the 1000
  uniformly spaced sample points of \<open>[0, lambda/2]\<close> (\<open>lambda = 2*pi/beta\<close> of the lossless
  matching section), and it is the earliest sample point achieving the minimum of
  \<open>|Re(Yin(d)) - Re(1/Z0)|\<close> over the grid: no sample has a smaller error, and every
  earlier sample has a strictly larger one. A sample whose error is not finite has no
  error to compare (\<open>sample\<close> is \<open>None\<close> there) and is never chosen. The sample points are
  those of \<^verbatim>\<open>np.linspace(0, lam / 2, 1000)\<close>; they lie between \<open>0\<close> and \<open>lambda/2\<close>, which
  is negative when \<open>beta\<close> is.
\<close>

theorem stub_tap_first_grid_minimum:
  assumes "single_stub_shunt R L G C f0 l ZL prefer = Inr r"
  shows "\<exists>gamma Z0 k e Y.
           gamma_Z0 0 L 0 C f0 = Inr (gamma, Z0) \<and> Im gamma \<noteq> 0 \<and> k < 1000
         \<and> d_opt r = linspace 0 (2 * pi / Im gamma / 2) 1000 ! k
         \<and> min 0 (2 * pi / Im gamma / 2) \<le> d_opt r \<and> d_opt r \<le> max 0 (2 * pi / Im gamma / 2)
         \<and> sample Z0 (Im gamma) ZL (np_div 1 Z0) (d_opt r) = Some (e, Y)
         \<and> e = \<bar>Re Y - Re (1 / Z0)\<bar>
         \<and> (\<forall>j<1000. \<forall>e' Y'.
               sample Z0 (Im gamma) ZL (np_div 1 Z0) (linspace 0 (2 * pi / Im gamma / 2) 1000 ! j)
                 = Some (e', Y') \<longrightarrow> e \<le> e')
         \<and> (\<forall>j<k. \<forall>e' Y'.
               sample Z0 (Im gamma) ZL (np_div 1 Z0) (linspace 0 (2 * pi / Im gamma / 2) 1000 ! j)
                 = Some (e', Y') \<longrightarrow> e < e')"
proof -
  from assms obtain gamma Z0 d Yin y0v ls Ys v where
    gz: "gamma_Z0 0 L 0 C f0 = Inr (gamma, Z0)" and
    sw: "snd (sweep Z0 (Im gamma) ZL (np_div 1 Z0)
            (np_linspace 0 (map_option (\<lambda>lam. lam / 2) (np_div (2 * pi) (Im gamma))) 1000)
            (10 ^ 9, None)) = Some (d, Yin)" and
    y0: "np_div 1 Z0 = Some y0v" and
    sl: "stub_length prefer (- Im (Yin - y0v)) Z0 y0v (Im gamma) = Inr (ls, Ys)" and
    sv: "stub_vswr gamma Z0 l ZL d Ys = Inr v" and
    r: "r = \<lparr>st_VSWR_src = v, d_opt = d, l_stub = ls, st_notes = (d, Yin, - Im (Yin - y0v), ls)\<rparr>"
    by (rule single_stub_InrE)
  define b where "b = Im gamma"
  define ds where "ds = np_linspace 0 (map_option (\<lambda>lam. lam / 2) (np_div (2 * pi) b)) 1000"
  define smp where "smp = sample Z0 b ZL (np_div 1 Z0)"
  from sw obtain pre post e where
    split: "ds = pre @ Some d # post" and
    best: "smp d = Some (e, Yin)" and
    before: "\<forall>u\<in>set pre. \<forall>x e' Y'. u = Some x \<longrightarrow> smp x = Some (e', Y') \<longrightarrow> e < e'" and
    after: "\<forall>u\<in>set post. \<forall>x e' Y'. u = Some x \<longrightarrow> smp x = Some (e', Y') \<longrightarrow> e \<le> e'"
    unfolding b_def [symmetric] ds_def [symmetric] smp_def
    using sweep_best_from_None [of Z0 b ZL "np_div 1 Z0" ds "10 ^ 9" d Yin] by blast
  have "Some d \<in> set ds" using split by simp
  then obtain s where s: "map_option (\<lambda>lam. lam / 2) (np_div (2 * pi) b) = Some s"
      and dsmap: "ds = map Some (linspace 0 s 1000)"
    unfolding ds_def using np_linspace_Some_mem by blast
  have bnz: "b \<noteq> 0" using s by (auto simp: np_div_def split: if_splits)
  then have sval: "s = 2 * pi / b / 2" using s by (simp add: np_div_def)
  define k where "k = length pre"
  have len: "length ds = 1000" by (simp add: dsmap length_linspace)
  then have k: "k < 1000" using split by (simp add: k_def)
  have nth_ds: "ds ! j = Some (linspace 0 s 1000 ! j)" if "j < 1000" for j
    using that by (simp add: dsmap length_linspace)
  have "ds ! k = Some d" by (simp add: split k_def)
  then have dk: "d = linspace 0 s 1000 ! k" using nth_ds [OF k] by simp
  have dval: "d = real k * (s / 999)" using dk k by (simp add: linspace_nth)
  define c where "c = real k / 999"
  have c: "0 \<le> c" "c \<le> 1" using k by (simp_all add: c_def)
  have dc: "d = c * s" by (simp add: dval c_def)
  have d0: "min 0 s \<le> d"
  proof (cases "0 \<le> s")
    case True
    then have "0 \<le> c * s" using c(1) by simp
    with True show ?thesis by (simp add: dc)
  next
    case False
    then have "1 * s \<le> c * s" using c(2) by (intro mult_right_mono_neg) simp_all
    with False show ?thesis by (simp add: dc)
  qed
  have d1: "d \<le> max 0 s"
  proof (cases "0 \<le> s")
    case True
    then have "c * s \<le> 1 * s" using c(2) by (intro mult_right_mono) simp_all
    with True show ?thesis by (simp add: dc)
  next
    case False
    then have "c * s \<le> 0" using c(1) by (simp add: mult_nonneg_nonpos)
    with False show ?thesis by (simp add: dc)
  qed
  have eval: "e = \<bar>Re Yin - Re (1 / Z0)\<bar>"
    using best y0 unfolding smp_def
    by (auto simp: sample_def np_div_def split: option.splits if_splits)
  have all: "e \<le> e'" if j: "j < 1000" and sj: "smp (linspace 0 s 1000 ! j) = Some (e', Y')" for j e' Y'
  proof -
    consider "j < k" | "j = k" | "k < j" by linarith
    then show ?thesis
    proof cases
      case 1
      then have "ds ! j = pre ! j" by (simp add: split k_def nth_append)
      then have "Some (linspace 0 s 1000 ! j) \<in> set pre"
        using 1 nth_ds [OF j] by (simp add: k_def)
      with before sj show ?thesis by fastforce
    next
      case 2
      with sj best dk show ?thesis by simp
    next
      case 3
      then have "ds ! j = post ! (j - k - 1)" by (simp add: split k_def nth_append)
      moreover have "j - k - 1 < length post" using 3 j len by (simp add: split k_def)
      ultimately have "Some (linspace 0 s 1000 ! j) \<in> set post"
        using nth_ds [OF j] by (metis nth_mem)
      with after sj show ?thesis by fastforce
    qed
  qed
  have first: "e < e'" if j: "j < k" and sj: "smp (linspace 0 s 1000 ! j) = Some (e', Y')" for j e' Y'
  proof -
    have j': "j < 1000" using j k by simp
    have "ds ! j = pre ! j" using j by (simp add: split k_def nth_append)
    then have "Some (linspace 0 s 1000 ! j) \<in> set pre"
      using j nth_ds [OF j'] by (simp add: k_def)
    with before sj show ?thesis by fastforce
  qed
  have dr: "d_opt r = d" by (simp add: r)
  show ?thesis
    using gz bnz k dk d0 d1 best eval all first
    unfolding dr smp_def sval b_def by blast
qed




text \<open>
  Claim C7. The output of \<open>single_stub_shunt\<close> does not depend on the host line's loss
  parameters: two calls that agree on \<open>(L, C, f0, l, ZL, prefer)\<close> return the same outcome
  (the same result fields, or the same error) whatever \<open>R\<close> and \<open>G\<close> are.
\<close>

theorem stub_ignores_host_losses:
  "single_stub_shunt R L G C f0 l ZL prefer = single_stub_shunt R' L G' C f0 l ZL prefer"
  by (simp add: single_stub_shunt_def)

lemma np_linspace_head:
  assumes "0 < n"
  shows "\<exists>ds. np_linspace a (Some s) n = Some a # ds"
proof -
  have "[0..<n] = 0 # [Suc 0..<n]" using assms by (simp add: upt_conv_Cons)
  then show ?thesis by (simp add: np_linspace_def linspace_def)
qed

lemma single_stub_returns:
  assumes LC: "0 < L * C" and f: "f0 \<noteq> 0" and ZL: "ZL \<noteq> 0"
      and e0: "\<bar>Re (1 / ZL) - 1 / sqrt (L / C)\<bar> < 10 ^ 9"
  shows "\<exists>r. single_stub_shunt R L G C f0 l ZL prefer = Inr r"
proof -
  define m where "m = 2 * pi * \<bar>f0\<bar> * sqrt (L * C)"
  define b where "b = (if f0 * L < 0 then - m else m)"
  define z where "z = sqrt (L / C)"
  have "0 < m" using LC f by (simp add: m_def)
  then have bnz: "b \<noteq> 0" by (simp add: b_def)
  have "0 < L / C" using LC by (simp add: zero_less_mult_iff zero_less_divide_iff)
  then have zpos: "0 < z" by (simp add: z_def)
  have "(if f0 * L < 0 then - \<i> else \<i>) * complex_of_real m = \<i> * of_real b"
    by (simp add: b_def)
  then have gz: "gamma_Z0 0 L 0 C f0 = Inr (\<i> * of_real b, of_real z)"
    using gamma_Z0_lossless_gen [OF LC f] by (simp only: m_def z_def)
  have imb: "Im (\<i> * of_real b) = b" by simp
  have y0: "np_div 1 (of_real z :: complex) = Some (1 / of_real z)"
    using zpos by (simp add: np_div_def)
  have lam: "map_option (\<lambda>lam. lam / 2) (np_div (2 * pi) b) = Some (2 * pi / b / 2)"
    using bnz by (simp add: np_div_def)
  have smp0: "sample (of_real z) b ZL (Some (1 / of_real z)) 0
                = Some (\<bar>Re (1 / ZL) - 1 / z\<bar>, 1 / ZL)"
    using zpos ZL by (simp add: sample_def np_tan_def np_div_def)
  have lt: "\<bar>Re (1 / ZL) - 1 / z\<bar> < 10 ^ 9" using e0 by (simp add: z_def)
  obtain ds where ds: "np_linspace 0 (Some (2 * pi / b / 2)) 1000 = Some 0 # ds"
    using np_linspace_head [of 1000 0 "2 * pi / b / 2"] by auto
  have "sweep (of_real z) b ZL (Some (1 / of_real z)) (Some 0 # ds) (10 ^ 9, None)
          = sweep (of_real z) b ZL (Some (1 / of_real z)) ds (\<bar>Re (1 / ZL) - 1 / z\<bar>, Some (0, 1 / ZL))"
    using lt by (simp add: smp0)
  then have "snd (sweep (of_real z) b ZL (Some (1 / of_real z)) (Some 0 # ds) (10 ^ 9, None)) \<noteq> None"
    using sweep_keeps_best by simp
  then obtain d Yin where best:
    "snd (sweep (of_real z) b ZL (Some (1 / of_real z)) (Some 0 # ds) (10 ^ 9, None)) = Some (d, Yin)"
    by fastforce
  obtain ls Ys where sl:
    "stub_length prefer (- Im (Yin - 1 / of_real z)) (of_real z) (1 / of_real z) b = Inr (ls, Ys)"
    using stub_length_returns [of "of_real z" "prefer" "- Im (Yin - 1 / of_real z)" "1 / of_real z" b]
    by (simp only: Im_complex_of_real) blast
  have "(of_real z :: complex) \<noteq> 0" using zpos by simp
  then obtain v where sv: "stub_vswr (\<i> * of_real b) (of_real z) l ZL d Ys = Inr v"
    using stub_vswr_returns by blast
  show ?thesis
    by (simp only: single_stub_unfold [OF gz] imb y0 lam ds best prod.case option.case sl sv sum.case)
       simp
qed


lemma test_scenario_returns:
  "\<exists>r. single_stub_shunt R (2 / 10 ^ 7) G (1 / 10 ^ 10) (10 ^ 9) l (Complex 100 50) pref = Inr r"
proof (rule single_stub_returns)
  define s where "s = sqrt ((2 / 10 ^ 7) / (1 / 10 ^ 10) :: real)"
  have "(1::real) \<le> (2 / 10 ^ 7) / (1 / 10 ^ 10)" by simp
  then have "sqrt 1 \<le> s" unfolding s_def by (simp only: real_sqrt_le_iff)
  then have s1: "1 \<le> s" by simp
  define t where "t = 1 / s"
  define x where "x = Re (1 / Complex 100 50)"
  have "0 < t" "t \<le> 1" using s1 by (simp_all add: t_def)
  moreover have "x = 1 / 125"
    by (simp add: x_def Re_divide power2_eq_square)
  ultimately have "\<bar>x - t\<bar> < 10 ^ 9" by simp
  then have "\<bar>Re (1 / Complex 100 50) - 1 / s\<bar> < 10 ^ 9" unfolding x_def t_def .
  then show "\<bar>Re (1 / Complex 100 50) - 1 / sqrt ((2 / 10 ^ 7) / (1 / 10 ^ 10))\<bar> < 10 ^ 9"
    unfolding s_def .
  show "Complex 100 50 \<noteq> 0" by (simp add: complex_eq_iff)
qed simp_all

theorem stub_tap_first_grid_minimum_witness:
  "\<exists>r. single_stub_shunt (5 / 100) (2 / 10 ^ 7) (1 / 10 ^ 8) (1 / 10 ^ 10) (10 ^ 9) (1 / 10)
          (Complex 100 50) ''short'' = Inr r
     \<and> (\<exists>gamma Z0 k e Y.
           gamma_Z0 0 (2 / 10 ^ 7) 0 (1 / 10 ^ 10) (10 ^ 9) = Inr (gamma, Z0) \<and> Im gamma \<noteq> 0 \<and> k < 1000
         \<and> d_opt r = linspace 0 (2 * pi / Im gamma / 2) 1000 ! k
         \<and> min 0 (2 * pi / Im gamma / 2) \<le> d_opt r \<and> d_opt r \<le> max 0 (2 * pi / Im gamma / 2)
         \<and> sample Z0 (Im gamma) (Complex 100 50) (np_div 1 Z0) (d_opt r) = Some (e, Y)
         \<and> e = \<bar>Re Y - Re (1 / Z0)\<bar>
         \<and> (\<forall>j<1000. \<forall>e' Y'.
               sample Z0 (Im gamma) (Complex 100 50) (np_div 1 Z0)
                 (linspace 0 (2 * pi / Im gamma / 2) 1000 ! j) = Some (e', Y') \<longrightarrow> e \<le> e')
         \<and> (\<forall>j<k. \<forall>e' Y'.
               sample Z0 (Im gamma) (Complex 100 50) (np_div 1 Z0)
                 (linspace 0 (2 * pi / Im gamma / 2) 1000 ! j) = Some (e', Y') \<longrightarrow> e < e'))"
proof -
  obtain r where r: "single_stub_shunt (5 / 100) (2 / 10 ^ 7) (1 / 10 ^ 8) (1 / 10 ^ 10) (10 ^ 9)
      (1 / 10) (Complex 100 50) ''short'' = Inr r"
    using test_scenario_returns by blast
  from stub_tap_first_grid_minimum [OF r] r show ?thesis by blast
qed



theorem stub_ignores_host_losses_witness:
  "single_stub_shunt (5 / 100) (2 / 10 ^ 7) (1 / 10 ^ 8) (1 / 10 ^ 10) (10 ^ 9) (1 / 10)
      (Complex 100 50) ''short''
   = single_stub_shunt 0 (2 / 10 ^ 7) 0 (1 / 10 ^ 10) (10 ^ 9) (1 / 10) (Complex 100 50) ''short''"
  by (rule stub_ignores_host_losses)

lemma single_stub_never_unmodelled:
  "single_stub_shunt R L G C f0 l ZL pref \<noteq> Inl NotModelled"
proof
  assume a: "single_stub_shunt R L G C f0 l ZL pref = Inl NotModelled"
  then obtain gamma Z0 where gz: "gamma_Z0 0 L 0 C f0 = Inr (gamma, Z0)"
    by (cases "gamma_Z0 0 L 0 C f0")
       (auto simp: single_stub_shunt_def gamma_Z0_def Let_def py_div_def split: if_splits)
  define ds where "ds = np_linspace 0 (map_option (\<lambda>lam. lam / 2) (np_div (2 * pi) (Im gamma))) 1000"
  from a obtain d Yin y0v where
    sw: "snd (sweep Z0 (Im gamma) ZL (np_div 1 Z0) ds (10 ^ 9, None)) = Some (d, Yin)" and
    y0: "np_div 1 Z0 = Some y0v" and
    rest: "(case stub_length pref (- Im (Yin - y0v)) Z0 y0v (Im gamma) of
            Inl e \<Rightarrow> Inl e
          | Inr (stub_len, Y_stub) \<Rightarrow>
              (case stub_vswr gamma Z0 l ZL d Y_stub of
                 Inl e \<Rightarrow> Inl e
               | Inr VSWR_src \<Rightarrow>
                   Inr \<lparr>st_VSWR_src = VSWR_src, d_opt = d, l_stub = stub_len,
                        st_notes = (d, Yin, - Im (Yin - y0v), stub_len)\<rparr>)) = Inl NotModelled"
    unfolding single_stub_unfold [OF gz] ds_def
    by (auto split: option.splits prod.splits)
  from sweep_best_from_None [OF sw] have "Some d \<in> set ds" by auto
  then have "map_option (\<lambda>lam. lam / 2) (np_div (2 * pi) (Im gamma)) \<noteq> None"
    unfolding ds_def using np_linspace_Some_mem by fastforce
  then have "Im gamma \<noteq> 0" by (auto simp: np_div_def)
  from gamma_Z0_lossless_shape [OF gz this] have z: "Z0 = of_real (sqrt (L / C))" "0 < L / C"
    by simp_all
  define q where "q = sqrt (L / C)"
  have "0 < q" using z(2) by (simp only: q_def real_sqrt_gt_0_iff)
  moreover have "Z0 = of_real q" using z(1) by (simp only: q_def)
  ultimately have "Im Z0 = 0" "Z0 \<noteq> 0" by simp_all
  obtain ls Ys where sl: "stub_length pref (- Im (Yin - y0v)) Z0 y0v (Im gamma) = Inr (ls, Ys)"
    using stub_length_returns [OF \<open>Im Z0 = 0\<close>] by blast
  obtain v where sv: "stub_vswr gamma Z0 l ZL d Ys = Inr v"
    using stub_vswr_returns [OF \<open>Z0 \<noteq> 0\<close>] by blast
  from rest have "(Inr \<lparr>st_VSWR_src = v, d_opt = d, l_stub = ls,
      st_notes = (d, Yin, - Im (Yin - y0v), ls)\<rparr> :: error + StubMatchResult) = Inl NotModelled"
    by (simp only: sl sv sum.case prod.case)
  then show False by simp
qed

text \<open>
  Claim C2 (hard failure of both solvers when \<open>beta\<close> is numerically zero), evaluated on
  the line \<open>L = C = 1e-20\<close>, \<open>f0 = 1\<close>: \<open>beta = 2*pi*1e-20\<close> is numerically zero,
  \<open>quarter_wave_transform\<close> raises \<^verbatim>\<open>ValueError\<close>, and \<open>single_stub_shunt\<close>, which has no
  such guard, returns a result.
\<close>

theorem stub_unguarded_at_tiny_beta:
  "gamma_Z0 0 (1 / 10 ^ 20) 0 (1 / 10 ^ 20) 1 = Inr (\<i> * of_real (2 * pi / 10 ^ 20), 1)
   \<and> isclose (2 * pi / 10 ^ 20) 0
   \<and> quarter_wave_transform 0 (1 / 10 ^ 20) 0 (1 / 10 ^ 20) 1 (Complex 100 50) = Inl ValueError
   \<and> \<not> isl (single_stub_shunt 0 (1 / 10 ^ 20) 0 (1 / 10 ^ 20) 1 (1 / 10) (Complex 100 50) ''short'')"
proof -
  have s1: "sqrt (1 / 10 ^ 20 * (1 / 10 ^ 20)) = 1 / 10 ^ 20"
    by (rule real_sqrt_unique) (simp_all add: power2_eq_square)
  have s2: "sqrt (1 / 10 ^ 20 / (1 / 10 ^ 20)) = 1" by simp
  have "gamma_Z0 0 (1 / 10 ^ 20) 0 (1 / 10 ^ 20) 1
          = Inr (\<i> * of_real (2 * pi * 1 * sqrt (1 / 10 ^ 20 * (1 / 10 ^ 20))),
                 of_real (sqrt (1 / 10 ^ 20 / (1 / 10 ^ 20))))"
    by (rule gamma_Z0_lossless) simp_all
  then have gz: "gamma_Z0 0 (1 / 10 ^ 20) 0 (1 / 10 ^ 20) 1 = Inr (\<i> * of_real (2 * pi / 10 ^ 20), 1)"
    by (simp only: s1 s2) simp
  have cl: "isclose (2 * pi / 10 ^ 20) 0"
    using pi_less_4 by (simp add: isclose_def)
  have qw: "quarter_wave_transform 0 (1 / 10 ^ 20) 0 (1 / 10 ^ 20) 1 (Complex 100 50) = Inl ValueError"
  proof -
    have "isclose (Im (\<i> * of_real (2 * pi / 10 ^ 20))) 0" using cl by simp
    then show ?thesis
      by (simp only: quarter_wave_transform_def gz sum.case prod.case Let_def if_True)
  qed
  have "\<bar>Re (1 / Complex 100 50) - 1 / sqrt (1 / 10 ^ 20 / (1 / 10 ^ 20))\<bar> < 10 ^ 9"
    by (simp only: s2) (simp add: Re_divide power2_eq_square)
  moreover have "Complex 100 50 \<noteq> 0" by (simp add: complex_eq_iff)
  ultimately obtain r where
    "single_stub_shunt 0 (1 / 10 ^ 20) 0 (1 / 10 ^ 20) 1 (1 / 10) (Complex 100 50) ''short'' = Inr r"
    using single_stub_returns [of "1 / 10 ^ 20" "1 / 10 ^ 20" 1 "Complex 100 50" 0 0 "1 / 10" "''short''"]
    by auto
  then have "\<not> isl (single_stub_shunt 0 (1 / 10 ^ 20) 0 (1 / 10 ^ 20) 1 (1 / 10) (Complex 100 50) ''short'')"
    by simp
  with gz cl qw show ?thesis by (intro conjI)
qed

end
